theory Spec2Isabelle
  imports Main "HOL-Library.Multiset"
begin

section \<open>The data-parallelism tutorial notebook\<close>

text \<open>
  The development embeds the code cells of \<^verbatim>\<open>data_parallel_tutorial.ipynb\<close>: the
  parameters, the class \<^verbatim>\<open>RandomDataset\<close>, the class \<^verbatim>\<open>Model\<close>, the cell that wraps
  the model in \<^verbatim>\<open>nn.DataParallel\<close> and the batch loop. The notebook calls into PyTorch
  (\<^verbatim>\<open>torch.randn\<close>, \<^verbatim>\<open>DataLoader\<close>, \<^verbatim>\<open>nn.Linear\<close>, \<^verbatim>\<open>nn.DataParallel\<close>); those
  primitives are not part of the notebook and are modelled separately, each under a
  comment that says so.
\<close>

subsection \<open>Values: errors, tensors, printed lines\<close>

datatype error = RuntimeError | IndexError

text \<open>
  A two-dimensional tensor: its second extent and its rows. The second extent is kept
  apart from the rows because a tensor with no rows still has one (\<^verbatim>\<open>[0, 5]\<close>).
  A one-dimensional tensor is a list. Elements are of an arbitrary type \<open>'a\<close>; the
  arithmetic of the linear layer needs \<open>'a\<close> to be a semiring. The program computes in
  32-bit floating point, whose rounding is not modelled: the development states extents,
  errors and the order of the printed lines, and nothing about the numbers in a tensor
  the layer has computed.
\<close>

datatype 'a tensor2 = Tensor2 (ncols: nat) (rows: "'a list list")

definition nrows :: "'a tensor2 \<Rightarrow> nat" where
  "nrows t = length (rows t)"

text \<open>\<^verbatim>\<open>t.size()\<close> of a two-dimensional tensor.\<close>

definition size2 :: "'a tensor2 \<Rightarrow> nat list" where
  "size2 t = [nrows t, ncols t]"

text \<open>
  The transcript is the list of printed lines, oldest first:
  \<^verbatim>\<open>print("Let's use", n, "GPUs!")\<close>,
  \<^verbatim>\<open>print("\tIn Model: input size", input.size(), "output size", output.size())\<close> and
  \<^verbatim>\<open>print("Outside: input size", input.size(), "output_size", output.size())\<close>.
\<close>

datatype line = LetsUse nat | InModel "nat list" "nat list" | Outside "nat list" "nat list"

fun is_InModel :: "line \<Rightarrow> bool" where
  "is_InModel (InModel i o') = True"
| "is_InModel l = False"

subsection \<open>Parameters\<close>

definition input_size :: nat where "input_size = 5"
definition output_size :: nat where "output_size = 2"
definition batch_size :: nat where "batch_size = 30"
definition data_size :: nat where "data_size = 100"

subsection \<open>Framework primitives\<close>

text \<open>
  Modelled from the spec: \<^verbatim>\<open>torch.randn\<close> is a PyTorch primitive, absent from the
  sources; the spec says "generate N random vectors of fixed dimension". The random
  source is the parameter \<open>g\<close>, the stream of samples the generator draws; a negative
  extent raises.
\<close>

definition fill :: "(nat \<Rightarrow> 'a) \<Rightarrow> nat \<Rightarrow> nat \<Rightarrow> 'a list list" where
  "fill g n c = map (\<lambda>r. map (\<lambda>k. g (r * c + k)) [0..<c]) [0..<n]"

definition randn :: "(nat \<Rightarrow> 'a) \<Rightarrow> int \<Rightarrow> int \<Rightarrow> error + 'a tensor2" where
  "randn g n c =
     (if n < 0 then Inl RuntimeError
      else if c < 0 then Inl RuntimeError
      else Inr (Tensor2 (nat c) (fill g (nat n) (nat c))))"

text \<open>
  Indexing a two-dimensional tensor with a Python integer, \<^verbatim>\<open>t[index]\<close>: a negative
  index counts from the end, an index out of range raises \<^verbatim>\<open>IndexError\<close>.
\<close>

definition tensor_index :: "'a tensor2 \<Rightarrow> int \<Rightarrow> error + 'a list" where
  "tensor_index t index =
     (let n = int (nrows t); j = (if index < 0 then n + index else index)
      in if 0 \<le> j \<and> j < n then Inr (rows t ! nat j) else Inl IndexError)"

text \<open>
  Modelled from the spec: splitting a sequence into consecutive pieces of a fixed size,
  the last one shorter when the size does not divide the length (\<^verbatim>\<open>torch.split\<close>, and
  the batch sampler of \<^verbatim>\<open>DataLoader\<close> with its default \<^verbatim>\<open>drop_last=False\<close>); the spec says
  "iterate over them in fixed-size batches", and the transcripts recorded in the notebook
  end with a batch of 10.
\<close>

function split_size :: "nat \<Rightarrow> 'a list \<Rightarrow> 'a list list" where
  "split_size n xs =
     (if n = 0 then [] else if xs = [] then []
      else take n xs # split_size n (drop n xs))"
  by pat_completeness auto
termination
  by (relation "measure (\<lambda>(n, xs). length xs)") auto

declare split_size.simps [simp del]

text \<open>
  Modelled from the spec: \<^verbatim>\<open>torch.stack\<close>, the default collation of \<^verbatim>\<open>DataLoader\<close>:
  the samples of a batch become the rows of one tensor; they must agree in size.
\<close>

definition stack :: "'a list list \<Rightarrow> error + 'a tensor2" where
  "stack xs =
     (case xs of
        [] \<Rightarrow> Inl RuntimeError
      | x # _ \<Rightarrow>
          if list_all (\<lambda>y. length y = length x) xs then Inr (Tensor2 (length x) xs)
          else Inl RuntimeError)"

text \<open>The first error of a list of results, or all the values.\<close>

fun collect :: "(error + 'b) list \<Rightarrow> error + 'b list" where
  "collect [] = Inr []"
| "collect (Inl e # rs) = Inl e"
| "collect (Inr y # rs) = (case collect rs of Inl e \<Rightarrow> Inl e | Inr ys \<Rightarrow> Inr (y # ys))"

subsection \<open>The dataset\<close>

text \<open>
  \<^verbatim>\<open>
  class RandomDataset(Dataset):
      def __init__(self, size, length):
          self.len = length
          self.data = torch.randn(length, size)
      def __getitem__(self, index):
          return self.data[index]
      def __len__(self):
          return self.len
  \<close>
\<close>

record 'a RandomDataset =
  len :: int
  data :: "'a tensor2"

definition RandomDataset_init :: "(nat \<Rightarrow> 'a) \<Rightarrow> int \<Rightarrow> int \<Rightarrow> error + 'a RandomDataset" where
  "RandomDataset_init g size' length' =
     (case randn g length' size' of
        Inl e \<Rightarrow> Inl e
      | Inr t \<Rightarrow> Inr \<lparr>len = length', data = t\<rparr>)"

definition getitem :: "'a RandomDataset \<Rightarrow> int \<Rightarrow> error + 'a list" where
  "getitem self index = tensor_index (data self) index"

definition len' :: "'a RandomDataset \<Rightarrow> int" where
  "len' self = len self"

text \<open>
  A call of one of the two accessors on a dataset object: its result and the object
  after the call. Neither method assigns to \<^verbatim>\<open>self\<close>. (The row \<^verbatim>\<open>__getitem__\<close>
  returns shares its storage with \<^verbatim>\<open>self.data\<close>; nothing in the notebook writes to it,
  and the loader copies the rows when it stacks them.)
\<close>

datatype ds_op = GetItem int | Len

datatype 'a ds_result = Item "error + 'a list" | Length int

fun ds_call :: "ds_op \<Rightarrow> 'a RandomDataset \<Rightarrow> 'a ds_result \<times> 'a RandomDataset" where
  "ds_call (GetItem index) self = (Item (getitem self index), self)"
| "ds_call Len self = (Length (len' self), self)"

fun ds_calls :: "ds_op list \<Rightarrow> 'a RandomDataset \<Rightarrow> 'a RandomDataset" where
  "ds_calls [] self = self"
| "ds_calls (c # cs) self = ds_calls cs (snd (ds_call c self))"

subsection \<open>The loader\<close>

text \<open>
  Modelled from the spec: \<^verbatim>\<open>DataLoader(dataset, batch_size, shuffle=True)\<close> is a PyTorch
  class, absent from the sources; the spec says "iterate over them in fixed-size batches
  with shuffling". The shuffle is the parameter \<open>perm\<close>, the order in which the sampler
  visits the indices. Each batch is fetched when the loop asks for it, so a batch is a
  result: fetching raises when an accessor does.
\<close>

definition fetch :: "'a RandomDataset \<Rightarrow> nat list \<Rightarrow> error + 'a tensor2" where
  "fetch dataset idxs =
     (case collect (map (\<lambda>i. getitem dataset (int i)) idxs) of
        Inl e \<Rightarrow> Inl e
      | Inr samples \<Rightarrow> stack samples)"

definition DataLoader :: "'a RandomDataset \<Rightarrow> nat \<Rightarrow> nat list \<Rightarrow> (error + 'a tensor2) list" where
  "DataLoader dataset bs perm = map (fetch dataset) (split_size bs perm)"

text \<open>
  \<^verbatim>\<open>
  rand_loader = DataLoader(dataset=RandomDataset(input_size, 100),
                           batch_size=batch_size, shuffle=True)
  \<close>
\<close>

definition rand_loader :: "(nat \<Rightarrow> 'a) \<Rightarrow> nat list \<Rightarrow> error + (error + 'a tensor2) list" where
  "rand_loader g perm =
     (case RandomDataset_init g (int input_size) 100 of
        Inl e \<Rightarrow> Inl e
      | Inr dataset \<Rightarrow> Inr (DataLoader dataset batch_size perm))"

subsection \<open>The linear layer\<close>

text \<open>
  Modelled from the spec: \<^verbatim>\<open>nn.Linear\<close> is a PyTorch class, absent from the sources; the
  spec says "a simple linear transformation" and "apply a linear map to each batch". Its
  documented form is \<open>y = x W\<^sup>T + b\<close> with a weight of \<open>out_features\<close> rows and
  \<open>in_features\<close> columns, drawn at construction (the stream \<open>g\<close>). A batch whose second
  extent is not \<open>in_features\<close> raises. The sums and products here are exact, those of the
  layer are rounded, so the entries of the result stand for the layer's only in their
  number and position.
\<close>

record 'a Linear =
  in_features :: nat
  out_features :: nat
  weight :: "'a list list"
  bias :: "'a list"

definition Linear_init :: "(nat \<Rightarrow> 'a) \<Rightarrow> nat \<Rightarrow> nat \<Rightarrow> 'a Linear" where
  "Linear_init g i o' =
     \<lparr>in_features = i, out_features = o', weight = fill g o' i,
      bias = map (\<lambda>k. g (o' * i + k)) [0..<o']\<rparr>"

definition dot :: "'a::semiring_0 list \<Rightarrow> 'a list \<Rightarrow> 'a" where
  "dot x w = sum_list (map2 (*) x w)"

text \<open>\<open>matmul_t X W\<close> is the matrix product \<open>X W\<^sup>T\<close>: entry \<open>(i, j)\<close> is row \<open>i\<close> of \<open>X\<close> times row \<open>j\<close> of \<open>W\<close>.\<close>

definition matmul_t :: "'a::semiring_0 list list \<Rightarrow> 'a list list \<Rightarrow> 'a list list" where
  "matmul_t X W = map (\<lambda>x. map (\<lambda>w. dot x w) W) X"

definition add_bias :: "'a::semiring_0 list list \<Rightarrow> 'a list \<Rightarrow> 'a list list" where
  "add_bias Y b = map (\<lambda>y. map2 (+) y b) Y"

definition Linear_forward :: "'a::semiring_0 Linear \<Rightarrow> 'a tensor2 \<Rightarrow> error + 'a tensor2" where
  "Linear_forward l x =
     (if ncols x = in_features l
      then Inr (Tensor2 (out_features l) (add_bias (matmul_t (rows x) (weight l)) (bias l)))
      else Inl RuntimeError)"

text \<open>The layer on one sample, a one-dimensional tensor.\<close>

definition Linear_forward1 :: "'a::semiring_0 Linear \<Rightarrow> 'a list \<Rightarrow> 'a list" where
  "Linear_forward1 l x = map2 (+) (map (\<lambda>w. dot x w) (weight l)) (bias l)"

subsection \<open>The model\<close>

text \<open>
  \<^verbatim>\<open>
  class Model(nn.Module):
      def __init__(self, input_size, output_size):
          super(Model, self).__init__()
          self.fc = nn.Linear(input_size, output_size)
      def forward(self, input):
          output = self.fc(input)
          print("\tIn Model: input size", input.size(),
                "output size", output.size())
          return output
  \<close>
  \<open>forward\<close> takes the transcript and returns it with the line it printed; when the layer
  raises, nothing is printed.
\<close>

record 'a Model =
  fc :: "'a Linear"

definition Model_init :: "(nat \<Rightarrow> 'a) \<Rightarrow> nat \<Rightarrow> nat \<Rightarrow> 'a Model" where
  "Model_init g input_size' output_size' = \<lparr>fc = Linear_init g input_size' output_size'\<rparr>"

definition forward :: "'a::semiring_0 Model \<Rightarrow> 'a tensor2 \<Rightarrow> line list \<Rightarrow> (error + 'a tensor2) \<times> line list" where
  "forward self input out =
     (case Linear_forward (fc self) input of
        Inl e \<Rightarrow> (Inl e, out)
      | Inr output \<Rightarrow> (Inr output, out @ [InModel (size2 input) (size2 output)]))"

subsection \<open>The replication wrapper\<close>

text \<open>
  Modelled from the spec: \<^verbatim>\<open>nn.DataParallel\<close> is a PyTorch class, absent from the
  sources; the spec says it may "replicate a model onto several devices and split an
  incoming batch so each device processes a slice, then recombine the per-device outputs
  before returning them to the caller". The notebook documents the split in its comment
  \<^verbatim>\<open># dim = 0 [30, xxx] -> [10, ...], [10, ...], [10, ...] on 3 GPUs\<close> and in the
  transcripts of its Results section (30 on 2 devices: 15, 15; 10 on 3 devices: 4, 4, 2;
  30 on 8 devices: seven slices of 4 and one of 2; 10 on 8 devices: five slices of 2):
  the batch is cut along its first extent into pieces of \<open>\<lceil>n / k\<rceil>\<close> rows.
  A batch without rows is outside what the notebook records and what the loader delivers:
  here it gets no slice, and gathering no output raises.
  A module is the bare model or the wrapper around it with the number of devices it uses.
\<close>

datatype 'a module = Plain "'a Model" | DataParallel "'a Model" nat

fun module_of :: "'a module \<Rightarrow> 'a Model" where
  "module_of (Plain m) = m"
| "module_of (DataParallel m k) = m"

definition scatter :: "nat \<Rightarrow> 'a tensor2 \<Rightarrow> 'a tensor2 list" where
  "scatter k x = map (Tensor2 (ncols x)) (split_size ((nrows x + k - 1) div k) (rows x))"

definition gather :: "'a tensor2 list \<Rightarrow> error + 'a tensor2" where
  "gather outputs =
     (case outputs of
        [] \<Rightarrow> Inl RuntimeError
      | y # ys \<Rightarrow>
          if list_all (\<lambda>z. ncols z = ncols y) ys
          then Inr (Tensor2 (ncols y) (concat (map rows outputs)))
          else Inl RuntimeError)"

text \<open>
  The replicas run concurrently, so the lines they print reach the transcript in an order
  the program does not fix (the 8-device transcript of the notebook shows the short slice
  in several positions). The order is the parameter \<open>sched\<close>: each number picks, among the
  lines not yet printed, the one printed next. Every \<open>sched\<close> gives a permutation.
\<close>

fun interleave :: "nat list \<Rightarrow> 'b list \<Rightarrow> 'b list" where
  "interleave [] xs = xs"
| "interleave (p # ps) [] = []"
| "interleave (p # ps) (x # xs) =
     (let ys = x # xs; i = p mod length ys
      in ys ! i # interleave ps (take i ys @ drop (Suc i) ys))"

text \<open>
  The wrapper's forward pass: on at most one device the module itself runs; otherwise
  every replica runs \<open>forward\<close> on its slice, the wrapper waits for all of them, and the
  outputs are concatenated in the order of the slices.
\<close>

definition DataParallel_forward ::
  "'a::semiring_0 Model \<Rightarrow> nat \<Rightarrow> 'a tensor2 \<Rightarrow> nat list \<Rightarrow> line list \<Rightarrow> (error + 'a tensor2) \<times> line list" where
  "DataParallel_forward m k input sched out =
     (if k \<le> 1 then forward m input out
      else
        let inputs = scatter k input;
            results = map (\<lambda>c. forward m c []) inputs;
            out' = out @ interleave sched (concat (map snd results))
        in case collect (map fst results) of
             Inl e \<Rightarrow> (Inl e, out')
           | Inr outputs \<Rightarrow> (gather outputs, out'))"

text \<open>\<^verbatim>\<open>model(input)\<close>.\<close>

fun module_call ::
  "'a::semiring_0 module \<Rightarrow> 'a tensor2 \<Rightarrow> nat list \<Rightarrow> line list \<Rightarrow> (error + 'a tensor2) \<times> line list" where
  "module_call (Plain m) input sched out = forward m input out"
| "module_call (DataParallel m k) input sched out = DataParallel_forward m k input sched out"

text \<open>
  \<^verbatim>\<open>
  model = Model(input_size, output_size)
  if torch.cuda.device_count() > 1:
    print("Let's use", torch.cuda.device_count(), "GPUs!")
    model = nn.DataParallel(model)
  model.to(device)
  \<close>
  \<open>device_count\<close> is the number of devices the machine has. Moving a module or a tensor
  to a device (\<^verbatim>\<open>.to(device)\<close>) leaves its values as they are.
\<close>

definition create_model :: "(nat \<Rightarrow> 'a) \<Rightarrow> nat \<Rightarrow> line list \<Rightarrow> 'a module \<times> line list" where
  "create_model g device_count out =
     (let model = Model_init g input_size output_size
      in if device_count > 1
         then (DataParallel model device_count, out @ [LetsUse device_count])
         else (Plain model, out))"

subsection \<open>The batch loop\<close>

text \<open>
  \<^verbatim>\<open>
  for data in rand_loader:
      input = data.to(device)
      output = model(input)
      print("Outside: input size", input.size(),
            "output_size", output.size())
  \<close>
  The state of the script is the variable \<^verbatim>\<open>model\<close> and the transcript. The loop ends
  at the first exception, returned with the state reached; \<open>scheds\<close> gives one print
  order for each batch (the order of the slices when it runs out).
\<close>

record 'a state =
  model :: "'a module"
  out :: "line list"

definition loop_body :: "'a::semiring_0 tensor2 \<Rightarrow> nat list \<Rightarrow> 'a state \<Rightarrow> error option \<times> 'a state" where
  "loop_body data' sched s =
     (let input = data'
      in case module_call (model s) input sched (out s) of
           (Inl e, out') \<Rightarrow> (Some e, s\<lparr>out := out'\<rparr>)
         | (Inr output, out') \<Rightarrow>
             (None, s\<lparr>out := out' @ [Outside (size2 input) (size2 output)]\<rparr>))"

fun run_loop ::
  "(error + 'a::semiring_0 tensor2) list \<Rightarrow> nat list list \<Rightarrow> 'a state \<Rightarrow> error option \<times> 'a state" where
  "run_loop [] scheds s = (None, s)"
| "run_loop (Inl e # batches) scheds s = (Some e, s)"
| "run_loop (Inr data' # batches) scheds s =
     (case loop_body data' (case scheds of [] \<Rightarrow> [] | sched # _ \<Rightarrow> sched) s of
        (Some e, s') \<Rightarrow> (Some e, s')
      | (None, s') \<Rightarrow> run_loop batches (tl scheds) s')"

text \<open>The whole script on a machine with \<open>device_count\<close> devices.\<close>

definition script ::
  "(nat \<Rightarrow> 'a::semiring_0) \<Rightarrow> (nat \<Rightarrow> 'a) \<Rightarrow> nat list \<Rightarrow> nat \<Rightarrow> nat list list \<Rightarrow> error option \<times> line list" where
  "script g gw perm device_count scheds =
     (case rand_loader g perm of
        Inl e \<Rightarrow> (Some e, [])
      | Inr batches \<Rightarrow>
          let (md, out0) = create_model gw device_count [];
              (r, s) = run_loop batches scheds \<lparr>model = md, out = out0\<rparr>
          in (r, out s))"

subsection \<open>The shape of a transcript\<close>

text \<open>
  \<open>batch_segment b seg\<close>: the lines \<open>seg\<close> are what one iteration of the loop on the batch
  \<open>b\<close> prints: one or more lines printed inside the model, then, last, the line the caller
  prints, which reports the extents of \<open>b\<close>.
\<close>

definition batch_segment :: "(error + 'a tensor2) \<Rightarrow> line list \<Rightarrow> bool" where
  "batch_segment b seg =
     (case b of
        Inl e \<Rightarrow> False
      | Inr x \<Rightarrow>
          (case rev seg of
             Outside i o' # ins \<Rightarrow> i = size2 x \<and> ins \<noteq> [] \<and> list_all is_InModel ins
           | _ \<Rightarrow> False))"

section \<open>Facts about the framework primitives\<close>

lemma split_size_Nil [simp]: "split_size n [] = []"
  by (subst split_size.simps) simp

lemma split_size_0 [simp]: "split_size 0 xs = []"
  by (subst split_size.simps) simp

lemma split_size_step:
  "0 < n \<Longrightarrow> xs \<noteq> [] \<Longrightarrow> split_size n xs = take n xs # split_size n (drop n xs)"
  by (subst split_size.simps) simp

lemma split_size_eq_Nil: "0 < n \<Longrightarrow> split_size n xs = [] \<longleftrightarrow> xs = []"
  by (cases "xs = []") (simp_all add: split_size_step)

lemma concat_split_size: "0 < n \<Longrightarrow> concat (split_size n xs) = xs"
proof (induction n xs rule: split_size.induct)
  case (1 n xs)
  show ?case
  proof (cases "xs = []")
    case True
    then show ?thesis by simp
  next
    case False
    then show ?thesis using 1 by (simp add: split_size_step)
  qed
qed

lemma split_size_pieces:
  "c \<in> set (split_size n xs) \<Longrightarrow> c \<noteq> [] \<and> length c \<le> n \<and> set c \<subseteq> set xs"
proof (induction n xs rule: split_size.induct)
  case (1 n xs)
  show ?case
  proof (cases "n = 0 \<or> xs = []")
    case True
    then show ?thesis using 1(2) by auto
  next
    case False
    then have s: "split_size n xs = take n xs # split_size n (drop n xs)"
      by (simp add: split_size_step)
    from 1(2) s have "c = take n xs \<or> c \<in> set (split_size n (drop n xs))" by simp
    then show ?thesis
    proof
      assume "c = take n xs"
      then show ?thesis using False by (auto dest: in_set_takeD)
    next
      assume "c \<in> set (split_size n (drop n xs))"
      then show ?thesis using 1(1) False by (auto dest: in_set_dropD)
    qed
  qed
qed

lemma split_30_100:
  assumes "length xs = 100"
  shows "map length (split_size 30 xs) = [30, 30, 30, 10]"
proof -
  have a: "xs \<noteq> []" "drop 30 xs \<noteq> []" "drop 60 xs \<noteq> []" "drop 90 xs \<noteq> []" "drop 120 xs = []"
    using assms by auto
  have "split_size 30 xs
      = [take 30 xs, take 30 (drop 30 xs), take 30 (drop 60 xs), take 30 (drop 90 xs)]"
    using a by (simp add: split_size_step)
  then show ?thesis using assms by simp
qed

lemma split_15_30:
  assumes "length xs = 30"
  shows "split_size 15 xs = [take 15 xs, drop 15 xs]"
proof -
  have a: "xs \<noteq> []" "drop 15 xs \<noteq> []" "drop 30 xs = []"
    using assms by auto
  have "split_size 15 xs = [take 15 xs, take 15 (drop 15 xs)]"
    using a by (simp add: split_size_step)
  then show ?thesis using assms by simp
qed

lemma chunk_size_pos: "0 < n \<Longrightarrow> 0 < k \<Longrightarrow> 0 < (n + k - 1) div k" for n k :: nat
  by (simp add: div_greater_zero_iff)

text \<open>Whatever the schedule, the lines printed are the lines of the replicas, each once.\<close>

lemma mset_interleave: "mset (interleave ps xs) = mset xs"
proof (induction ps xs rule: interleave.induct)
  case (3 p ps x xs)
  define ys where "ys = x # xs"
  define i where "i = p mod length ys"
  have i: "i < length ys" by (simp add: i_def ys_def)
  have ih: "mset (interleave ps (take i ys @ drop (Suc i) ys)) = mset (take i ys @ drop (Suc i) ys)"
    using 3[of ys i] by (simp add: ys_def i_def)
  have "interleave (p # ps) (x # xs) = ys ! i # interleave ps (take i ys @ drop (Suc i) ys)"
    by (simp add: Let_def ys_def i_def)
  then have "mset (interleave (p # ps) (x # xs)) = mset (take i ys @ ys ! i # drop (Suc i) ys)"
    using ih by simp
  also have "\<dots> = mset ys" using id_take_nth_drop[OF i] by simp
  finally show ?case by (simp add: ys_def)
qed simp_all

lemma set_interleave: "set (interleave ps xs) = set xs"
  using mset_interleave[of ps xs] by (rule mset_eq_setD)

lemma length_interleave: "length (interleave ps xs) = length xs"
  using mset_interleave[of ps xs] by (rule mset_eq_length)

lemma interleave_replicate: "interleave ps (replicate n l) = replicate n l"
proof -
  have "\<forall>y\<in>set (interleave ps (replicate n l)). y = l"
    by (auto simp: set_interleave)
  then have "replicate (length (interleave ps (replicate n l))) l = interleave ps (replicate n l)"
    by (rule replicate_length_same)
  then show ?thesis by (simp add: length_interleave)
qed

lemma collect_map_Inr: "collect (map (\<lambda>x. Inr (h x)) xs) = Inr (map h xs)"
  by (induction xs) simp_all

lemma collect_Inr_length: "collect rs = Inr ys \<Longrightarrow> map Inr ys = rs"
proof (induction rs arbitrary: ys rule: collect.induct)
  case (3 y rs)
  then show ?case by (auto split: sum.splits)
qed simp_all

lemma collect_Inl_first: "rs \<noteq> [] \<Longrightarrow> collect (map (\<lambda>r. Inl e) rs) = Inl e"
  by (cases rs) simp_all

lemma length_fill: "length (fill g n c) = n"
  by (simp add: fill_def)

lemma fill_nth: "r < n \<Longrightarrow> fill g n c ! r = map (\<lambda>k. g (r * c + k)) [0..<c]"
  by (simp add: fill_def)

lemma fill_row_length: "v \<in> set (fill g n c) \<Longrightarrow> length v = c"
  by (auto simp: fill_def)

lemma stack_ok:
  "xs \<noteq> [] \<Longrightarrow> list_all (\<lambda>y. length y = c) xs \<Longrightarrow> stack xs = Inr (Tensor2 c xs)"
  by (cases xs) (simp_all add: stack_def)

lemma stack_success: "stack xs = Inr t \<Longrightarrow> xs \<noteq> [] \<and> t = Tensor2 (length (hd xs)) xs"
  by (cases xs) (auto simp: stack_def split: if_splits)

section \<open>Properties of the dataset\<close>

lemma init_data:
  assumes "RandomDataset_init g sz ln = Inr ds"
  shows "0 \<le> ln \<and> 0 \<le> sz \<and> len ds = ln \<and> data ds = Tensor2 (nat sz) (fill g (nat ln) (nat sz))"
  using assms by (auto simp: RandomDataset_init_def randn_def split: if_splits)

lemma init_randn:
  assumes "RandomDataset_init g sz ln = Inr ds"
  shows "randn g ln sz = Inr (data ds)"
  using assms by (auto simp: RandomDataset_init_def split: sum.splits)

lemma ds_calls_id: "ds_calls ops ds = ds"
proof (induction ops)
  case (Cons c cs)
  then show ?case by (cases c) simp_all
qed simp

lemma getitem_stored: "getitem ds i = Inr v \<Longrightarrow> v \<in> set (rows (data ds))"
  by (auto simp: getitem_def tensor_index_def nrows_def Let_def split: if_splits)

lemma getitem_valid:
  assumes "RandomDataset_init g sz ln = Inr ds" and "0 \<le> i" and "i < ln"
  shows "getitem ds i = Inr (rows (data ds) ! nat i)"
  using assms init_data[OF assms(1)]
  by (simp add: getitem_def tensor_index_def Let_def nrows_def length_fill)

text \<open>
  C6. The dataset is generated once, at construction, and indexed by position: for a valid
  index \<open>i\<close> the item accessor returns row \<open>i\<close> of the tensor \<^verbatim>\<open>torch.randn\<close> produced in
  the constructor, also after any sequence of accessor calls, and those calls leave the
  stored tensor as it was.
\<close>

theorem getitem_returns_generated:
  assumes "RandomDataset_init g sz ln = Inr ds" and "randn g ln sz = Inr t"
    and "0 \<le> i" and "i < ln"
  shows "getitem (ds_calls ops ds) i = Inr (rows t ! nat i) \<and> data (ds_calls ops ds) = t"
proof -
  have "data ds = t" using init_randn[OF assms(1)] assms(2) by simp
  then show ?thesis using getitem_valid[OF assms(1,3,4)] by (simp add: ds_calls_id)
qed

theorem getitem_returns_generated_witness:
  "RandomDataset_init (\<lambda>n. int n) 3 4 = Inr \<lparr>len = 4, data = Tensor2 3 (fill (\<lambda>n. int n) 4 3)\<rparr>
   \<and> randn (\<lambda>n. int n) 4 3 = Inr (Tensor2 3 (fill (\<lambda>n. int n) 4 3))
   \<and> getitem (ds_calls [GetItem 1, Len, GetItem (- 1), GetItem 7]
        \<lparr>len = 4, data = Tensor2 3 (fill (\<lambda>n. int n) 4 3)\<rparr>) 2 = Inr [6, 7, 8]
   \<and> data (ds_calls [GetItem 1, Len, GetItem (- 1), GetItem 7]
        \<lparr>len = 4, data = Tensor2 3 (fill (\<lambda>n. int n) 4 3)\<rparr>) = Tensor2 3 (fill (\<lambda>n. int n) 4 3)"
proof -
  let ?g = "\<lambda>n. int n"
  let ?t = "Tensor2 3 (fill ?g 4 3)"
  let ?ds = "\<lparr>len = 4, data = ?t\<rparr>"
  have r: "randn ?g 4 3 = Inr ?t" by (simp add: randn_def)
  have h: "RandomDataset_init ?g 3 4 = Inr ?ds" by (simp add: RandomDataset_init_def r)
  have v: "rows ?t ! nat 2 = [6, 7, 8]" by code_simp
  show ?thesis
    using getitem_returns_generated[OF h r, of 2 "[GetItem 1, Len, GetItem (- 1), GetItem 7]"] h r v
    by simp
qed

text \<open>
  C7. The dataset class has two accessors: after a construction with \<open>(size, length)\<close> the
  length accessor returns the \<open>length\<close> given, and whatever the item accessor returns is
  one of the stored rows.
\<close>

theorem len_returns_length:
  assumes "RandomDataset_init g sz ln = Inr ds"
  shows "len' ds = ln \<and> (getitem ds i = Inr v \<longrightarrow> v \<in> set (rows (data ds)))"
proof -
  have "len' ds = ln" using init_data[OF assms] by (simp add: len'_def)
  moreover have "getitem ds i = Inr v \<longrightarrow> v \<in> set (rows (data ds))"
    by (simp add: getitem_stored)
  ultimately show ?thesis by simp
qed

theorem len_returns_length_witness:
  "RandomDataset_init (\<lambda>n. int n) 3 4 = Inr \<lparr>len = 4, data = Tensor2 3 (fill (\<lambda>n. int n) 4 3)\<rparr>
   \<and> len' \<lparr>len = 4, data = Tensor2 3 (fill (\<lambda>n. int n) 4 3)\<rparr> = 4
   \<and> getitem \<lparr>len = 4, data = Tensor2 3 (fill (\<lambda>n. int n) 4 3)\<rparr> (- 1) = Inr [9, 10, 11]
   \<and> [9, 10, 11] \<in> set (rows (data \<lparr>len = 4, data = Tensor2 3 (fill (\<lambda>n. int n) 4 3)\<rparr>))"
proof -
  let ?g = "\<lambda>n. int n"
  let ?ds = "\<lparr>len = 4, data = Tensor2 3 (fill ?g 4 3)\<rparr>"
  have h: "RandomDataset_init ?g 3 4 = Inr ?ds" by (simp add: RandomDataset_init_def randn_def)
  have v: "getitem ?ds (- 1) = Inr [9, 10, 11]" by code_simp
  show ?thesis
    using len_returns_length[OF h, of "- 1" "[9, 10, 11]"] h v by simp
qed

text \<open>
  C9. After a construction with \<open>(size, length)\<close> the stored tensor has exactly \<open>length\<close>
  rows, so for every index \<open>i\<close> with \<open>0 \<le> i\<close> below the value of the length accessor the
  item accessor succeeds and returns a vector of dimension \<open>size\<close>.
\<close>

theorem getitem_in_range:
  assumes "RandomDataset_init g sz ln = Inr ds" and "0 \<le> i" and "i < len' ds"
  shows "int (nrows (data ds)) = ln \<and> (\<exists>v. getitem ds i = Inr v \<and> int (length v) = sz)"
proof -
  note d = init_data[OF assms(1)]
  have n: "int (nrows (data ds)) = ln" using d by (simp add: nrows_def length_fill)
  have lt: "i < ln" using assms(3) d by (simp add: len'_def)
  then have i: "nat i < nat ln" using assms(2) by simp
  have "getitem ds i = Inr (fill g (nat ln) (nat sz) ! nat i)"
    using getitem_valid[OF assms(1,2) lt] d by simp
  then show ?thesis using n d fill_nth[OF i, of g "nat sz"] by simp
qed

theorem getitem_in_range_witness:
  "RandomDataset_init (\<lambda>n. int n) 3 4 = Inr \<lparr>len = 4, data = Tensor2 3 (fill (\<lambda>n. int n) 4 3)\<rparr>
   \<and> (0::int) \<le> 3 \<and> 3 < len' \<lparr>len = 4, data = Tensor2 3 (fill (\<lambda>n. int n) 4 3)\<rparr>
   \<and> int (nrows (data \<lparr>len = 4, data = Tensor2 3 (fill (\<lambda>n. int n) 4 3)\<rparr>)) = 4
   \<and> (\<exists>v. getitem \<lparr>len = 4, data = Tensor2 3 (fill (\<lambda>n. int n) 4 3)\<rparr> 3 = Inr v \<and> int (length v) = 3)"
proof -
  let ?g = "\<lambda>n. int n"
  let ?ds = "\<lparr>len = 4, data = Tensor2 3 (fill ?g 4 3)\<rparr>"
  have h: "RandomDataset_init ?g 3 4 = Inr ?ds" by (simp add: RandomDataset_init_def randn_def)
  have l: "3 < len' ?ds" by (simp add: len'_def)
  show ?thesis
    using getitem_in_range[OF h _ l] h l by simp
qed

section \<open>Properties of the loader\<close>

lemma fetch_success:
  assumes i: "RandomDataset_init g sz ln = Inr ds" and f: "fetch ds idxs = Inr x"
  shows "rows x \<noteq> [] \<and> ncols x = nat sz"
proof -
  from f obtain samples where c: "collect (map (\<lambda>i. getitem ds (int i)) idxs) = Inr samples"
    and s: "stack samples = Inr x"
    by (auto simp: fetch_def split: sum.splits)
  from stack_success[OF s] have ne: "samples \<noteq> []" and x: "x = Tensor2 (length (hd samples)) samples"
    by simp_all
  have m: "map Inr samples = map (\<lambda>i. getitem ds (int i)) idxs"
    using collect_Inr_length[OF c] .
  then have "idxs \<noteq> []" using ne by auto
  then have "Inr (hd samples) = getitem ds (int (hd idxs))"
    using m ne by (metis hd_map)
  then have "hd samples \<in> set (rows (data ds))"
    using getitem_stored[of ds "int (hd idxs)" "hd samples"] by simp
  then have "length (hd samples) = nat sz"
    using init_data[OF i] by (auto dest: fill_row_length)
  then show ?thesis using x ne by simp
qed

lemma fetch_ok:
  assumes i: "RandomDataset_init g sz ln = Inr ds" and ne: "idxs \<noteq> []"
    and r: "\<forall>j\<in>set idxs. j < nat ln"
  shows "fetch ds idxs = Inr (Tensor2 (nat sz) (map (\<lambda>j. rows (data ds) ! j) idxs))"
proof -
  note d = init_data[OF i]
  have g: "map (\<lambda>j. getitem ds (int j)) idxs = map (\<lambda>j. Inr (rows (data ds) ! j)) idxs"
  proof (rule map_cong[OF refl])
    fix j assume "j \<in> set idxs"
    then have "int j < ln" using r by auto
    then show "getitem ds (int j) = Inr (rows (data ds) ! j)"
      using getitem_valid[OF i, of "int j"] by simp
  qed
  have c: "collect (map (\<lambda>j. getitem ds (int j)) idxs) = Inr (map (\<lambda>j. rows (data ds) ! j) idxs)"
    unfolding g by (rule collect_map_Inr)
  have l: "list_all (\<lambda>y. length y = nat sz) (map (\<lambda>j. rows (data ds) ! j) idxs)"
    using r d by (auto simp: list_all_iff length_fill intro!: fill_row_length[of _ g "nat ln"])
  show ?thesis
    using ne by (simp add: fetch_def c stack_ok[OF _ l])
qed

lemma rand_loader_init:
  "RandomDataset_init g (int input_size) 100
     = Inr \<lparr>len = 100, data = Tensor2 input_size (fill g 100 input_size)\<rparr>"
  by (simp add: RandomDataset_init_def randn_def)

text \<open>Every batch the loader delivers has at least one row, and rows of \<open>input_size\<close> elements.\<close>

lemma rand_loader_batch:
  assumes "rand_loader g perm = Inr batches" and "Inr x \<in> set batches"
  shows "rows x \<noteq> [] \<and> ncols x = input_size"
proof -
  let ?ds = "\<lparr>len = 100, data = Tensor2 input_size (fill g 100 input_size)\<rparr>"
  have "batches = DataLoader ?ds batch_size perm"
    using assms(1) by (simp add: rand_loader_def rand_loader_init)
  then obtain idxs where "fetch ?ds idxs = Inr x"
    using assms(2) by (auto simp: DataLoader_def)
  from fetch_success[OF rand_loader_init this] show ?thesis by simp
qed

text \<open>
  C2 (amended). The claim that every batch of the loader over the 100-sample dataset with
  batch size 30 contains exactly 30 samples fails on the last batch. What holds: for every
  shuffle of the 100 indices the loader delivers four batches, none of them raises, the
  first three contain exactly 30 samples and the last one the remaining 10.
\<close>

theorem rand_loader_batch_sizes:
  assumes "mset perm = mset [0..<100]"
  shows "\<exists>bs. rand_loader g perm = Inr (map Inr bs) \<and> map nrows bs = [30, 30, 30, 10]"
proof -
  let ?ds = "\<lparr>len = 100, data = Tensor2 input_size (fill g 100 input_size)\<rparr>"
  let ?mk = "\<lambda>c. Tensor2 input_size (map (\<lambda>j. rows (data ?ds) ! j) c)"
  let ?chunks = "split_size 30 perm"
  have len: "length perm = 100" using mset_eq_length[OF assms] by simp
  have st: "set perm = {0..<100}" using mset_eq_setD[OF assms] by simp
  have "map (fetch ?ds) ?chunks = map (\<lambda>c. Inr (?mk c)) ?chunks"
  proof (rule map_cong[OF refl])
    fix c assume c: "c \<in> set ?chunks"
    from split_size_pieces[OF c] have ne: "c \<noteq> []" and sub: "set c \<subseteq> set perm" by simp_all
    have r: "\<forall>j\<in>set c. j < nat 100" using sub st by auto
    show "fetch ?ds c = Inr (?mk c)"
      using fetch_ok[OF rand_loader_init ne r] by simp
  qed
  then have a: "rand_loader g perm = Inr (map Inr (map ?mk ?chunks))"
    by (simp add: rand_loader_def rand_loader_init DataLoader_def batch_size_def comp_def)
  have b: "map nrows (map ?mk ?chunks) = [30, 30, 30, 10]"
    using split_30_100[OF len] by (simp add: comp_def nrows_def)
  show ?thesis
    by (rule exI[of _ "map ?mk ?chunks"]) (simp only: a b simp_thms)
qed

theorem rand_loader_batch_sizes_witness:
  "mset (rev [0..<100]) = mset [0..<100]
   \<and> (\<exists>bs. rand_loader int (rev [0..<100]) = Inr (map Inr bs) \<and> map nrows bs = [30, 30, 30, 10])"
proof -
  have h: "mset (rev [0..<100]) = mset [0..<100]" by simp
  show ?thesis using rand_loader_batch_sizes[OF h, of int] h by simp
qed

text \<open>
  C2 as stated is false: with the samples \<open>0, 1, 2, \<dots>\<close> and the indices in their
  natural order, the loader delivers batches of extents \<open>[30, 5]\<close>, \<open>[30, 5]\<close>, \<open>[30, 5]\<close> and
  \<open>[10, 5]\<close>; the last batch has 10 samples, not 30.
\<close>

theorem rand_loader_last_batch_10:
  "map_sum id (map (map_sum id size2)) (rand_loader int [0..<100])
     = Inr [Inr [30, 5], Inr [30, 5], Inr [30, 5], Inr [10, 5]]"
  by code_simp

section \<open>Properties of the model\<close>

text \<open>
  C10. As a function from the input tensor to the returned tensor, the forward pass with
  its print statement is the bare linear layer: for every input, also one the layer
  rejects, \<open>forward\<close> returns exactly what \<open>self.fc\<close> returns; printing only extends the
  transcript.
\<close>

theorem forward_is_linear:
  "fst (forward self input tr) = Linear_forward (fc self) input"
  by (simp add: forward_def split: sum.splits)

lemma linear_rows:
  "add_bias (matmul_t rs (weight l)) (bias l) = map (Linear_forward1 l) rs"
  by (simp add: add_bias_def matmul_t_def Linear_forward1_def)

lemma Linear_forward_ok:
  "ncols x = in_features l \<Longrightarrow>
   Linear_forward l x = Inr (Tensor2 (out_features l) (map (Linear_forward1 l) (rows x)))"
  by (simp add: Linear_forward_def linear_rows)

lemma Linear_forward_success:
  "Linear_forward l x = Inr y \<Longrightarrow>
   ncols x = in_features l \<and> y = Tensor2 (out_features l) (map (Linear_forward1 l) (rows x))"
  by (auto simp: Linear_forward_def linear_rows split: if_splits)

lemma forward_ok:
  assumes "ncols x = in_features (fc m)"
  shows "forward m x tr =
    (Inr (Tensor2 (out_features (fc m)) (map (Linear_forward1 (fc m)) (rows x))),
     tr @ [InModel [nrows x, ncols x] [nrows x, out_features (fc m)]])"
  using assms by (simp add: forward_def Linear_forward_ok size2_def nrows_def)

lemma forward_bad:
  "ncols x \<noteq> in_features (fc m) \<Longrightarrow> forward m x tr = (Inl RuntimeError, tr)"
  by (simp add: forward_def Linear_forward_def)

lemma forward_success:
  assumes "forward m x tr = (Inr y, tr')"
  shows "ncols x = in_features (fc m)"
  using assms by (auto simp: forward_def dest: Linear_forward_success split: sum.splits)

lemma Model_init_features:
  "in_features (fc (Model_init gw i o')) = i" "out_features (fc (Model_init gw i o')) = o'"
  by (simp_all add: Model_init_def Linear_init_def)

lemma create_model_fst:
  "fst (create_model gw k tr0) =
     (if 1 < k then DataParallel (Model_init gw input_size output_size) k
      else Plain (Model_init gw input_size output_size))"
  by (simp add: create_model_def Let_def)

section \<open>Properties of the replication wrapper\<close>

text \<open>
  On a batch with at least one row and rows of the size the layer expects, the wrapper on
  two or more devices returns what the layer returns on the whole batch, and prints one
  line for each slice, in the order of the schedule.
\<close>

lemma DataParallel_forward_ok:
  fixes m :: "'a::semiring_0 Model"
  assumes k: "1 < k" and ne: "rows x \<noteq> []" and c: "ncols x = in_features (fc m)"
  shows "DataParallel_forward m k x sched tr =
    (Inr (Tensor2 (out_features (fc m)) (map (Linear_forward1 (fc m)) (rows x))),
     tr @ interleave sched
       (map (\<lambda>rs. InModel [length rs, ncols x] [length rs, out_features (fc m)])
          (split_size ((nrows x + k - 1) div k) (rows x))))"
proof -
  let ?cs = "(nrows x + k - 1) div k"
  let ?chunks = "split_size ?cs (rows x)"
  let ?f = "Linear_forward1 (fc m)"
  let ?o = "out_features (fc m)"
  let ?line = "\<lambda>rs. InModel [length rs, ncols x] [length rs, ?o]"
  have pos: "0 < ?cs" using k ne by (intro chunk_size_pos) (simp_all add: nrows_def)
  have res: "map (\<lambda>c. forward m c []) (scatter k x)
      = map (\<lambda>rs. (Inr (Tensor2 ?o (map ?f rs)), [?line rs])) ?chunks"
    using c by (simp add: scatter_def forward_ok nrows_def comp_def)
  have outs: "collect (map fst (map (\<lambda>c. forward m c []) (scatter k x)))
      = Inr (map (\<lambda>rs. Tensor2 ?o (map ?f rs)) ?chunks)"
    unfolding res by (simp add: comp_def collect_map_Inr)
  have lines: "concat (map snd (map (\<lambda>c. forward m c []) (scatter k x))) = map ?line ?chunks"
    unfolding res by (induction ?chunks) (simp_all add: comp_def)
  have chne: "?chunks \<noteq> []" using pos ne by (simp add: split_size_eq_Nil)
  have "concat (map rows (map (\<lambda>rs. Tensor2 ?o (map ?f rs)) ?chunks)) = map ?f (concat ?chunks)"
    by (simp add: comp_def map_concat)
  then have cat: "concat (map rows (map (\<lambda>rs. Tensor2 ?o (map ?f rs)) ?chunks)) = map ?f (rows x)"
    using pos by (simp add: concat_split_size)
  have g: "gather (map (\<lambda>rs. Tensor2 ?o (map ?f rs)) ?chunks) = Inr (Tensor2 ?o (map ?f (rows x)))"
  proof (cases ?chunks)
    case Nil
    then show ?thesis using chne by simp
  next
    case (Cons a as)
    have "list_all (\<lambda>z. ncols z = ?o) (map (\<lambda>rs. Tensor2 ?o (map ?f rs)) as)"
      by (simp add: list_all_iff)
    then show ?thesis using cat Cons by (simp add: gather_def)
  qed
  show ?thesis
    unfolding DataParallel_forward_def Let_def outs lines using k g by simp
qed

lemma DataParallel_forward_success:
  fixes m :: "'a::semiring_0 Model"
  assumes k: "1 < k" and ok: "fst (DataParallel_forward m k x sched tr) = Inr y"
  shows "rows x \<noteq> [] \<and> ncols x = in_features (fc m)"
proof (intro conjI notI)
  assume "rows x = []"
  then have "scatter k x = []" by (simp add: scatter_def)
  then have "fst (DataParallel_forward m k x sched tr) = Inl RuntimeError"
    using k by (simp add: DataParallel_forward_def gather_def)
  then show False using ok by simp
next
  show "ncols x = in_features (fc m)"
  proof (rule ccontr)
    assume bad: "ncols x \<noteq> in_features (fc m)"
    have ne: "rows x \<noteq> []"
    proof
      assume "rows x = []"
      then have "scatter k x = []" by (simp add: scatter_def)
      then have "fst (DataParallel_forward m k x sched tr) = Inl RuntimeError"
        using k by (simp add: DataParallel_forward_def gather_def)
      then show False using ok by simp
    qed
    have pos: "0 < (nrows x + k - 1) div k"
      using k ne by (intro chunk_size_pos) (simp_all add: nrows_def)
    have sne: "scatter k x \<noteq> []"
      using pos ne by (simp add: scatter_def split_size_eq_Nil)
    have e: "map fst (map (\<lambda>c. forward m c []) (scatter k x))
        = map (\<lambda>c. Inl RuntimeError) (scatter k x)"
      using bad by (simp add: scatter_def forward_bad comp_def)
    have "collect (map fst (map (\<lambda>c. forward m c []) (scatter k x))) = Inl RuntimeError"
      unfolding e using sne by (rule collect_Inl_first)
    then have "fst (DataParallel_forward m k x sched tr) = Inl RuntimeError"
      unfolding DataParallel_forward_def Let_def using k by simp
    then show False using ok by simp
  qed
qed

lemma module_call_success:
  fixes md :: "'a::semiring_0 module"
  assumes "module_call md x sched tr = (Inr y, tr')"
  shows "y = Tensor2 (out_features (fc (module_of md))) (map (Linear_forward1 (fc (module_of md))) (rows x))
    \<and> ncols x = in_features (fc (module_of md))
    \<and> (\<exists>ins. tr' = tr @ ins \<and> ins \<noteq> [] \<and> list_all is_InModel ins)"
proof (cases md)
  case (Plain m)
  then have f: "forward m x tr = (Inr y, tr')" using assms by simp
  have c: "ncols x = in_features (fc m)" using forward_success[OF f] .
  show ?thesis using f Plain c by (auto simp: forward_ok[OF c])
next
  case (DataParallel m k)
  then have d: "DataParallel_forward m k x sched tr = (Inr y, tr')" using assms by simp
  show ?thesis
  proof (cases "1 < k")
    case False
    then have f: "forward m x tr = (Inr y, tr')" using d by (simp add: DataParallel_forward_def)
    have c: "ncols x = in_features (fc m)" using forward_success[OF f] .
    show ?thesis using f DataParallel c by (auto simp: forward_ok[OF c])
  next
    case True
    have "fst (DataParallel_forward m k x sched tr) = Inr y" using d by simp
    from DataParallel_forward_success[OF True this]
    have ne: "rows x \<noteq> []" and c: "ncols x = in_features (fc m)" by simp_all
    let ?lines = "map (\<lambda>rs. InModel [length rs, ncols x] [length rs, out_features (fc m)])
          (split_size ((nrows x + k - 1) div k) (rows x))"
    have pos: "0 < (nrows x + k - 1) div k"
      using True ne by (intro chunk_size_pos) (simp_all add: nrows_def)
    have l1: "?lines \<noteq> []" using pos ne by (simp add: split_size_eq_Nil)
    have l2: "list_all is_InModel ?lines" by (simp add: list_all_iff)
    have i1: "interleave sched ?lines \<noteq> []"
    proof
      assume "interleave sched ?lines = []"
      then have "length ?lines = 0" using length_interleave[of sched ?lines] by simp
      then show False using l1 by simp
    qed
    have i2: "list_all is_InModel (interleave sched ?lines)"
      using l2 by (simp add: list_all_iff set_interleave)
    have eq: "(Inr y, tr') = (Inr (Tensor2 (out_features (fc m)) (map (Linear_forward1 (fc m)) (rows x))),
        tr @ interleave sched ?lines)"
      using d DataParallel_forward_ok[OF True ne c, of sched tr] by simp
    then have y: "y = Tensor2 (out_features (fc m)) (map (Linear_forward1 (fc m)) (rows x))"
      and t: "tr' = tr @ interleave sched ?lines" by simp_all
    have "\<exists>ins. tr' = tr @ ins \<and> ins \<noteq> [] \<and> list_all is_InModel ins"
      using t i1 i2 by blast
    then show ?thesis using y c DataParallel by simp
  qed
qed

lemma sum_scatter:
  assumes "0 < k" and "rows x \<noteq> []"
  shows "sum_list (map nrows (scatter k x)) = nrows x"
proof -
  have pos: "0 < (nrows x + k - 1) div k"
    using assms by (intro chunk_size_pos) (simp_all add: nrows_def)
  have "sum_list (map nrows (scatter k x)) = sum_list (map length (split_size ((nrows x + k - 1) div k) (rows x)))"
    by (simp add: scatter_def comp_def nrows_def)
  also have "\<dots> = length (concat (split_size ((nrows x + k - 1) div k) (rows x)))"
    by (simp add: length_concat)
  also have "\<dots> = nrows x" using pos by (simp add: concat_split_size nrows_def)
  finally show ?thesis .
qed

lemma module_call_ok:
  fixes md :: "'a::semiring_0 module"
  assumes ne: "rows x \<noteq> []" and c: "ncols x = in_features (fc (module_of md))"
  shows "fst (module_call md x sched tr)
    = Inr (Tensor2 (out_features (fc (module_of md))) (map (Linear_forward1 (fc (module_of md))) (rows x)))"
proof (cases md)
  case (Plain m)
  then show ?thesis using c by (simp add: forward_ok)
next
  case (DataParallel m k)
  show ?thesis
  proof (cases "1 < k")
    case True
    then show ?thesis using DataParallel c ne by (simp add: DataParallel_forward_ok)
  next
    case False
    then show ?thesis using DataParallel c by (simp add: DataParallel_forward_def forward_ok)
  qed
qed

text \<open>
  C1. With two devices the script wraps the model, and every batch of 30 samples (of
  \<open>input_size\<close> elements each) is split along its first extent into exactly two slices, of
  15 and 15 samples; each slice goes through one replica's forward pass, which prints its
  line.
\<close>

theorem two_devices_split_30:
  fixes x :: "'a::semiring_0 tensor2"
  assumes "nrows x = 30" and "ncols x = input_size"
  shows "map size2 (scatter 2 x) = [[15, 5], [15, 5]]
     \<and> snd (module_call (fst (create_model gw 2 tr0)) x sched tr)
         = tr @ [InModel [15, 5] [15, 2], InModel [15, 5] [15, 2]]"
proof -
  let ?m = "Model_init gw input_size output_size"
  have len: "length (rows x) = 30" using assms(1) by (simp add: nrows_def)
  have cs: "(nrows x + 2 - 1) div 2 = 15" using assms(1) by simp
  have sp: "split_size 15 (rows x) = [take 15 (rows x), drop 15 (rows x)]"
    using split_15_30[OF len] .
  have a: "map size2 (scatter 2 x) = [[15, 5], [15, 5]]"
    using len assms(2) by (simp add: scatter_def cs sp size2_def nrows_def input_size_def)
  have ne: "rows x \<noteq> []" using len by auto
  have c: "ncols x = in_features (fc ?m)" using assms(2) by (simp add: Model_init_features)
  have "interleave sched (replicate 2 (InModel [15, 5] [15, 2])) = replicate 2 (InModel [15, 5] [15, 2])"
    by (rule interleave_replicate)
  then have il: "interleave sched [InModel [15, 5] [15, 2], InModel [15, 5] [15, 2]]
      = [InModel [15, 5] [15, 2], InModel [15, 5] [15, 2]]"
    by (simp add: numeral_2_eq_2)
  have k: "(1::nat) < 2" by simp
  have "snd (DataParallel_forward ?m 2 x sched tr)
      = tr @ interleave sched (map (\<lambda>rs. InModel [length rs, ncols x] [length rs, out_features (fc ?m)])
          (split_size ((nrows x + 2 - 1) div 2) (rows x)))"
    by (simp only: DataParallel_forward_ok[OF k ne c] snd_conv)
  also have "\<dots> = tr @ interleave sched [InModel [15, 5] [15, 2], InModel [15, 5] [15, 2]]"
    unfolding cs sp using len assms(2)
    by (simp add: Model_init_features input_size_def output_size_def)
  finally have "snd (DataParallel_forward ?m 2 x sched tr)
      = tr @ [InModel [15, 5] [15, 2], InModel [15, 5] [15, 2]]"
    by (simp only: il)
  then show ?thesis using a by (simp add: create_model_fst)
qed

theorem two_devices_split_30_witness:
  "nrows (Tensor2 5 (fill int 30 5)) = 30 \<and> ncols (Tensor2 5 (fill int 30 5)) = input_size
   \<and> map size2 (scatter 2 (Tensor2 5 (fill int 30 5))) = [[15, 5], [15, 5]]
   \<and> snd (module_call (fst (create_model int 2 [])) (Tensor2 5 (fill int 30 5)) [1, 0] [LetsUse 2])
       = [LetsUse 2, InModel [15, 5] [15, 2], InModel [15, 5] [15, 2]]"
proof -
  have h1: "nrows (Tensor2 5 (fill int 30 5)) = 30" by (simp add: nrows_def length_fill)
  have h2: "ncols (Tensor2 5 (fill int 30 5)) = input_size" by (simp add: input_size_def)
  show ?thesis
    using two_devices_split_30[OF h1 h2, of int "[]" "[1, 0]" "[LetsUse 2]"] h1 h2 by simp
qed

text \<open>
  C3. For every batch the loader delivers, passed through the model wrapped for two or more
  devices: the sizes of the per-device slices sum to the batch size, and the recombined
  output returned to the caller has the first extent of the input batch and the second
  extent 2, the output dimension.
\<close>

theorem wrapped_output_extents:
  fixes g gw :: "nat \<Rightarrow> 'a::semiring_0"
  assumes "rand_loader g perm = Inr batches" and "Inr x \<in> set batches" and "1 < device_count"
  shows "sum_list (map nrows (scatter device_count x)) = nrows x
     \<and> (\<exists>y. fst (module_call (fst (create_model gw device_count tr0)) x sched tr) = Inr y
            \<and> size2 y = [nrows x, 2])"
proof -
  let ?m = "Model_init gw input_size output_size"
  from rand_loader_batch[OF assms(1,2)] have ne: "rows x \<noteq> []" and c: "ncols x = input_size"
    by simp_all
  have a: "sum_list (map nrows (scatter device_count x)) = nrows x"
    using sum_scatter[OF _ ne] assms(3) by simp
  have md: "fst (create_model gw device_count tr0) = DataParallel ?m device_count"
    using assms(3) by (simp add: create_model_fst)
  have "fst (module_call (DataParallel ?m device_count) x sched tr)
      = Inr (Tensor2 (out_features (fc ?m)) (map (Linear_forward1 (fc ?m)) (rows x)))"
    using module_call_ok[of x "DataParallel ?m device_count" sched tr] ne c
    by (simp add: Model_init_features)
  then have "fst (module_call (fst (create_model gw device_count tr0)) x sched tr)
      = Inr (Tensor2 2 (map (Linear_forward1 (fc ?m)) (rows x)))"
    by (simp add: md Model_init_features output_size_def)
  moreover have "size2 (Tensor2 2 (map (Linear_forward1 (fc ?m)) (rows x))) = [nrows x, 2]"
    by (simp add: size2_def nrows_def)
  ultimately show ?thesis using a by simp
qed

theorem wrapped_output_extents_witness:
  "rand_loader int (rev [0..<100])
     = Inr [Inr (Tensor2 5 (map ((!) (fill int 100 5)) (rev [70..<100]))),
            Inr (Tensor2 5 (map ((!) (fill int 100 5)) (rev [40..<70]))),
            Inr (Tensor2 5 (map ((!) (fill int 100 5)) (rev [10..<40]))),
            Inr (Tensor2 5 (map ((!) (fill int 100 5)) (rev [0..<10])))]
   \<and> (1::nat) < 3
   \<and> sum_list (map nrows (scatter 3 (Tensor2 5 (map ((!) (fill int 100 5)) (rev [0..<10])))))
       = nrows (Tensor2 5 (map ((!) (fill int 100 5)) (rev [0..<10])))
   \<and> (\<exists>y. fst (module_call (fst (create_model int 3 []))
               (Tensor2 5 (map ((!) (fill int 100 5)) (rev [0..<10]))) [2, 0] []) = Inr y
          \<and> size2 y = [nrows (Tensor2 5 (map ((!) (fill int 100 5)) (rev [0..<10]))), 2])"
proof -
  let ?T = "\<lambda>c. Tensor2 5 (map ((!) (fill int 100 5)) c)"
  let ?B = "[Inr (?T (rev [70..<100])), Inr (?T (rev [40..<70])), Inr (?T (rev [10..<40])),
             Inr (?T (rev [0..<10]))]"
  have h1: "rand_loader int (rev [0..<100]) = Inr ?B" by code_simp
  have h2: "Inr (?T (rev [0..<10])) \<in> set ?B" by (simp only: list.set insert_iff simp_thms)
  have h3: "(1::nat) < 3" by simp
  note t = wrapped_output_extents[OF h1 h2 h3, of int "[]" "[2, 0]" "[]"]
  show ?thesis
    by (intro conjI) (rule h1 h3 conjunct1[OF t] conjunct2[OF t])+
qed

section \<open>Properties of the batch loop\<close>

lemma loop_body_model: "model (snd (loop_body d sched s)) = model s"
  by (simp add: loop_body_def Let_def split: prod.splits sum.splits)

text \<open>
  C8. Running the whole batch loop leaves the model as it was: the loop evaluates the
  forward pass and prints, nothing assigns to the model or to its parameters, whether the
  loop ends normally or with an exception.
\<close>

theorem run_loop_keeps_model:
  "model (snd (run_loop batches scheds s)) = model s"
proof (induction batches scheds s rule: run_loop.induct)
  case (3 d batches scheds s)
  let ?sched = "case scheds of [] \<Rightarrow> [] | sched # _ \<Rightarrow> sched"
  obtain r s' where b: "loop_body d ?sched s = (r, s')"
    by (cases "loop_body d ?sched s")
  have m: "model s' = model s"
    using loop_body_model[of d ?sched s] b by simp
  show ?case
  proof (cases r)
    case None
    then show ?thesis using 3 b m by simp
  next
    case (Some e)
    then show ?thesis using b m by simp
  qed
qed simp_all

lemma loop_body_success:
  fixes s :: "'a::semiring_0 state"
  assumes "loop_body d sched s = (None, s1)"
  shows "\<exists>seg. out s1 = out s @ seg \<and> batch_segment (Inr d) seg"
proof -
  from assms obtain y tr' where mc: "module_call (model s) d sched (out s) = (Inr y, tr')"
    and s1: "s1 = s\<lparr>out := tr' @ [Outside (size2 d) (size2 y)]\<rparr>"
    by (auto simp: loop_body_def Let_def split: prod.splits sum.splits)
  from module_call_success[OF mc] obtain ins where
    ins: "tr' = out s @ ins" "ins \<noteq> []" "list_all is_InModel ins" by blast
  have "batch_segment (Inr d) (ins @ [Outside (size2 d) (size2 y)])"
    using ins by (simp add: batch_segment_def)
  moreover have "out s1 = out s @ (ins @ [Outside (size2 d) (size2 y)])"
    using s1 ins by simp
  ultimately show ?thesis by blast
qed

lemma forward_lines: "list_all is_InModel (snd (forward m c []))"
  by (simp add: forward_def split: sum.splits)

lemma forward_appends: "\<exists>ls. snd (forward m x tr) = tr @ ls \<and> list_all is_InModel ls"
  by (simp add: forward_def split: sum.splits)

lemma DataParallel_forward_appends:
  fixes m :: "'a::semiring_0 Model"
  shows "\<exists>ls. snd (DataParallel_forward m k x sched tr) = tr @ ls \<and> list_all is_InModel ls"
proof (cases "k \<le> 1")
  case True
  then show ?thesis using forward_appends[of m x tr] by (simp add: DataParallel_forward_def)
next
  case False
  let ?ls = "interleave sched (concat (map snd (map (\<lambda>c. forward m c []) (scatter k x))))"
  have "snd (DataParallel_forward m k x sched tr) = tr @ ?ls"
    using False by (simp add: DataParallel_forward_def Let_def split: sum.splits)
  moreover have "list_all is_InModel ?ls"
    using forward_lines[of m] by (auto simp: list_all_iff set_interleave)
  ultimately show ?thesis by blast
qed

lemma module_call_appends:
  fixes md :: "'a::semiring_0 module"
  shows "\<exists>ls. snd (module_call md x sched tr) = tr @ ls \<and> list_all is_InModel ls"
proof (cases md)
  case (Plain m)
  then show ?thesis using forward_appends[of m x tr] by simp
next
  case (DataParallel m k)
  then show ?thesis using DataParallel_forward_appends[of m k x sched tr] by simp
qed

lemma loop_body_failure:
  fixes s :: "'a::semiring_0 state"
  assumes "loop_body d sched s = (Some e, s1)"
  shows "\<exists>ls. out s1 = out s @ ls \<and> list_all is_InModel ls"
proof -
  from assms have "out s1 = snd (module_call (model s) d sched (out s))"
    by (auto simp: loop_body_def Let_def split: prod.splits sum.splits)
  then show ?thesis using module_call_appends[of "model s" d sched "out s"] by simp
qed

text \<open>
  C5. Whatever the outcome of the loop, the lines it printed are, for each batch it
  processed and in the order of the batches, the lines printed inside the model for that
  batch (at least one, in whatever order the replicas printed them) followed by the line
  of the caller for that batch; the caller's line of a batch never precedes an in-model
  line of the same batch. A loop that ends normally has processed every batch and printed
  nothing else; a loop that ends with an exception has processed the batches before the
  failing one, and after them printed in-model lines at most.
\<close>

theorem in_model_lines_precede_outside:
  fixes s :: "'a::semiring_0 state"
  assumes "run_loop batches scheds s = (r, s')"
  shows "\<exists>segs ls. out s' = out s @ concat segs @ ls
     \<and> list_all2 batch_segment (take (length segs) batches) segs
     \<and> list_all is_InModel ls
     \<and> (case r of None \<Rightarrow> ls = [] \<and> length segs = length batches
         | Some e \<Rightarrow> length segs < length batches)"
  using assms
proof (induction batches scheds s rule: run_loop.induct)
  case (1 scheds s)
  then have "out s' = out s @ concat [] @ [] \<and> list_all2 batch_segment (take (length []) []) []
     \<and> list_all is_InModel [] \<and> (case r of None \<Rightarrow> [] = [] \<and> length [] = length []
         | Some e \<Rightarrow> length [] < length [])" by auto
  then show ?case by blast
next
  case (2 e batches scheds s)
  then have "out s' = out s @ concat [] @ []
     \<and> list_all2 batch_segment (take (length []) (Inl e # batches)) []
     \<and> list_all is_InModel []
     \<and> (case r of None \<Rightarrow> [] = [] \<and> length [] = length (Inl e # batches)
         | Some e' \<Rightarrow> length [] < length (Inl e # batches))" by auto
  then show ?case by blast
next
  case (3 d batches scheds s)
  let ?sched = "case scheds of [] \<Rightarrow> [] | sched # _ \<Rightarrow> sched"
  obtain r1 s1 where b: "loop_body d ?sched s = (r1, s1)"
    by (cases "loop_body d ?sched s")
  show ?case
  proof (cases r1)
    case (Some e)
    then have rs: "r = Some e" "s' = s1" using "3.prems" b by simp_all
    from loop_body_failure[OF b[unfolded Some]] obtain ls where
      ls: "out s1 = out s @ ls" "list_all is_InModel ls" by blast
    have "out s' = out s @ concat [] @ ls
       \<and> list_all2 batch_segment (take (length []) (Inr d # batches)) []
       \<and> list_all is_InModel ls
       \<and> (case r of None \<Rightarrow> ls = [] \<and> length [] = length (Inr d # batches)
           | Some e' \<Rightarrow> length [] < length (Inr d # batches))"
      using rs ls by simp
    then show ?thesis by blast
  next
    case None
    have rest: "run_loop batches (tl scheds) s1 = (r, s')"
      using "3.prems" b None by simp
    from "3.IH"[OF b[symmetric] None rest] obtain segs ls where
      segs: "out s' = out s1 @ concat segs @ ls"
        "list_all2 batch_segment (take (length segs) batches) segs"
        "list_all is_InModel ls"
        "case r of None \<Rightarrow> ls = [] \<and> length segs = length batches
           | Some e \<Rightarrow> length segs < length batches" by blast
    from loop_body_success[OF b[unfolded None]] obtain seg where
      seg: "out s1 = out s @ seg" "batch_segment (Inr d) seg" by blast
    have "out s' = out s @ concat (seg # segs) @ ls
       \<and> list_all2 batch_segment (take (length (seg # segs)) (Inr d # batches)) (seg # segs)
       \<and> list_all is_InModel ls
       \<and> (case r of None \<Rightarrow> ls = [] \<and> length (seg # segs) = length (Inr d # batches)
           | Some e \<Rightarrow> length (seg # segs) < length (Inr d # batches))"
      using segs seg by (simp split: option.splits)
    then show ?thesis by blast
  qed
qed

theorem in_model_lines_precede_outside_witness:
  "run_loop [Inr (Tensor2 2 [[1, 2], [3, 4], [5, 6 :: int]]), Inr (Tensor2 2 [[7, 8]])] [[1]]
      \<lparr>model = DataParallel (Model_init int 2 2) 2, out = [LetsUse 2]\<rparr>
     = (None, \<lparr>model = DataParallel (Model_init int 2 2) 2,
         out = [LetsUse 2, InModel [1, 2] [1, 2], InModel [2, 2] [2, 2], Outside [3, 2] [3, 2],
                InModel [1, 2] [1, 2], Outside [1, 2] [1, 2]]\<rparr>)
   \<and> (\<exists>segs ls. [LetsUse 2, InModel [1, 2] [1, 2], InModel [2, 2] [2, 2], Outside [3, 2] [3, 2],
                InModel [1, 2] [1, 2], Outside [1, 2] [1, 2]] = [LetsUse 2] @ concat segs @ ls
         \<and> list_all2 batch_segment
              (take (length segs)
                 [Inr (Tensor2 2 [[1, 2], [3, 4], [5, 6 :: int]]), Inr (Tensor2 2 [[7, 8]])]) segs
         \<and> list_all is_InModel ls \<and> ls = [] \<and> length segs = 2)"
proof -
  let ?bs = "[Inr (Tensor2 2 [[1, 2], [3, 4], [5, 6 :: int]]), Inr (Tensor2 2 [[7, 8]])]"
  let ?md = "DataParallel (Model_init int 2 2) 2"
  let ?tr = "[LetsUse 2, InModel [1, 2] [1, 2], InModel [2, 2] [2, 2], Outside [3, 2] [3, 2],
                InModel [1, 2] [1, 2], Outside [1, 2] [1, 2]]"
  have h: "run_loop ?bs [[1]] \<lparr>model = ?md, out = [LetsUse 2]\<rparr> = (None, \<lparr>model = ?md, out = ?tr\<rparr>)"
    by code_simp
  have "\<exists>segs ls. ?tr = [LetsUse 2] @ concat segs @ ls
         \<and> list_all2 batch_segment (take (length segs) ?bs) segs
         \<and> list_all is_InModel ls \<and> ls = [] \<and> length segs = 2"
    using in_model_lines_precede_outside[OF h] by (simp add: numeral_2_eq_2)
  then show ?thesis by (intro conjI h)
qed

section \<open>The transcripts recorded in the notebook\<close>

text \<open>
  The Results section of the notebook records what the script printed on 2, 3 and 8
  devices, and says what it prints on one device or none. The model prints the same
  lines; on 8 devices the recorded order of the slices is that of the schedules given.
\<close>

lemma recorded_transcript_2:
  "script int int (rev [0..<100]) 2 [] =
     (None,
      [LetsUse 2,
       InModel [15, 5] [15, 2], InModel [15, 5] [15, 2], Outside [30, 5] [30, 2],
       InModel [15, 5] [15, 2], InModel [15, 5] [15, 2], Outside [30, 5] [30, 2],
       InModel [15, 5] [15, 2], InModel [15, 5] [15, 2], Outside [30, 5] [30, 2],
       InModel [5, 5] [5, 2], InModel [5, 5] [5, 2], Outside [10, 5] [10, 2]])"
  by code_simp

lemma recorded_transcript_3:
  "script int int (rev [0..<100]) 3 [] =
     (None,
      [LetsUse 3,
       InModel [10, 5] [10, 2], InModel [10, 5] [10, 2], InModel [10, 5] [10, 2],
       Outside [30, 5] [30, 2],
       InModel [10, 5] [10, 2], InModel [10, 5] [10, 2], InModel [10, 5] [10, 2],
       Outside [30, 5] [30, 2],
       InModel [10, 5] [10, 2], InModel [10, 5] [10, 2], InModel [10, 5] [10, 2],
       Outside [30, 5] [30, 2],
       InModel [4, 5] [4, 2], InModel [4, 5] [4, 2], InModel [2, 5] [2, 2],
       Outside [10, 5] [10, 2]])"
  by code_simp

lemma recorded_transcript_8:
  "script int int (rev [0..<100]) 8 [[0, 0, 5], [0, 0, 0, 0, 0, 0, 1]] =
     (None,
      [LetsUse 8,
       InModel [4, 5] [4, 2], InModel [4, 5] [4, 2], InModel [2, 5] [2, 2], InModel [4, 5] [4, 2],
       InModel [4, 5] [4, 2], InModel [4, 5] [4, 2], InModel [4, 5] [4, 2], InModel [4, 5] [4, 2],
       Outside [30, 5] [30, 2],
       InModel [4, 5] [4, 2], InModel [4, 5] [4, 2], InModel [4, 5] [4, 2], InModel [4, 5] [4, 2],
       InModel [4, 5] [4, 2], InModel [4, 5] [4, 2], InModel [2, 5] [2, 2], InModel [4, 5] [4, 2],
       Outside [30, 5] [30, 2],
       InModel [4, 5] [4, 2], InModel [4, 5] [4, 2], InModel [4, 5] [4, 2], InModel [4, 5] [4, 2],
       InModel [4, 5] [4, 2], InModel [4, 5] [4, 2], InModel [4, 5] [4, 2], InModel [2, 5] [2, 2],
       Outside [30, 5] [30, 2],
       InModel [2, 5] [2, 2], InModel [2, 5] [2, 2], InModel [2, 5] [2, 2], InModel [2, 5] [2, 2],
       InModel [2, 5] [2, 2],
       Outside [10, 5] [10, 2]])"
  by code_simp

lemma recorded_transcript_1:
  "script int int (rev [0..<100]) 1 [] =
     (None,
      [InModel [30, 5] [30, 2], Outside [30, 5] [30, 2],
       InModel [30, 5] [30, 2], Outside [30, 5] [30, 2],
       InModel [30, 5] [30, 2], Outside [30, 5] [30, 2],
       InModel [10, 5] [10, 2], Outside [10, 5] [10, 2]])"
  by code_simp

end
